theory Spec2Isabelle
  imports
    Complex_Main
    "HOL-Library.Word"
    "HOL-Library.Signed_Division"
    "HOL-Library.Multiset"
begin

section \<open>The sample transformation engine of the Prometheus sidecar (retrieval/transform.go)\<close>

text \<open>
  The theory embeds \<^verbatim>\<open>retrieval/transform.go\<close>: the name classifier
  \<^verbatim>\<open>stripComplexMetricSuffix\<close>, the timestamp utility \<^verbatim>\<open>getTimestamp\<close>, the label
  comparator \<^verbatim>\<open>histogramLabelsEqual\<close>, the scratch \<^verbatim>\<open>distribution\<close> with its
  \<^verbatim>\<open>sort.Interface\<close> methods, \<^verbatim>\<open>buildDistribution\<close> and \<^verbatim>\<open>sampleBuilder.next\<close>.
  Go's \<^verbatim>\<open>int64\<close>, \<^verbatim>\<open>int32\<close> and \<^verbatim>\<open>uint64\<close> are machine words; a
  \<^verbatim>\<open>string\<close> is its list of bytes; a slice is a list; a panic is the value \<open>None\<close>.
\<close>

subsection \<open>Machine numbers\<close>

type_synonym int64 = "64 word"
type_synonym int32 = "32 word"
type_synonym uint64 = "64 word"

text \<open>
  A \<^verbatim>\<open>float64\<close> is one of the four kinds of IEEE-754 binary64 values. A finite value is
  kept as the real number it denotes, so the two zeros are one value (they compare equal in
  Go as well) and the rounding of a finite result to 53 bits is left out of the arithmetic
  below. Comparison, the special values and the conversions to and from \<^verbatim>\<open>int64\<close> follow
  Go; nothing proved below depends on the digits of a quotient or a product.
\<close>

datatype float64 = NaN | PInf | NInf | Fin real

definition IsNaN :: "float64 \<Rightarrow> bool" where
  "IsNaN f = (f = NaN)"

text \<open>\<^verbatim>\<open>math.IsInf(f, sign)\<close>: \<open>sign > 0\<close> asks for \<open>+Inf\<close>, \<open>sign < 0\<close> for \<open>-Inf\<close>, \<open>0\<close> for either.\<close>

definition IsInf :: "float64 \<Rightarrow> int \<Rightarrow> bool" where
  "IsInf f sign = ((sign \<ge> 0 \<and> f = PInf) \<or> (sign \<le> 0 \<and> f = NInf))"

text \<open>The comparison \<^verbatim>\<open>a < b\<close>: false as soon as one side is NaN.\<close>

fun flt :: "float64 \<Rightarrow> float64 \<Rightarrow> bool" where
  "flt NaN b = False"
| "flt a NaN = False"
| "flt PInf b = False"
| "flt a NInf = False"
| "flt NInf b = True"
| "flt a PInf = True"
| "flt (Fin x) (Fin y) = (x < y)"

definition fgt :: "float64 \<Rightarrow> float64 \<Rightarrow> bool" where
  "fgt a b = flt b a"


fun fneg :: "float64 \<Rightarrow> float64" where
  "fneg NaN = NaN"
| "fneg PInf = NInf"
| "fneg NInf = PInf"
| "fneg (Fin x) = Fin (- x)"

fun fadd :: "float64 \<Rightarrow> float64 \<Rightarrow> float64" where
  "fadd NaN b = NaN"
| "fadd a NaN = NaN"
| "fadd PInf NInf = NaN"
| "fadd NInf PInf = NaN"
| "fadd PInf b = PInf"
| "fadd NInf b = NInf"
| "fadd a PInf = PInf"
| "fadd a NInf = NInf"
| "fadd (Fin x) (Fin y) = Fin (x + y)"

definition fsub :: "float64 \<Rightarrow> float64 \<Rightarrow> float64" where
  "fsub a b = fadd a (fneg b)"

text \<open>The sign of a value: \<open>1\<close>, \<open>0\<close> or \<open>-1\<close> (NaN is handled before it is asked).\<close>

fun fsgn :: "float64 \<Rightarrow> int" where
  "fsgn NaN = 0"
| "fsgn PInf = 1"
| "fsgn NInf = - 1"
| "fsgn (Fin x) = (if x > 0 then 1 else if x < 0 then - 1 else 0)"

definition finf :: "int \<Rightarrow> float64" where
  "finf s = (if s > 0 then PInf else if s < 0 then NInf else NaN)"

fun fmul :: "float64 \<Rightarrow> float64 \<Rightarrow> float64" where
  "fmul NaN b = NaN"
| "fmul a NaN = NaN"
| "fmul (Fin x) (Fin y) = Fin (x * y)"
| "fmul a b = finf (fsgn a * fsgn b)"

text \<open>
  Division. A zero divisor is taken as \<open>+0\<close> (the sign of zero is not kept); the code
  divides by \<open>count\<close> only when \<open>count > 0\<close>, and by the constant \<open>2\<close>.
\<close>

fun fdiv :: "float64 \<Rightarrow> float64 \<Rightarrow> float64" where
  "fdiv NaN b = NaN"
| "fdiv a NaN = NaN"
| "fdiv (Fin x) (Fin y) = (if y = 0 then finf (fsgn (Fin x)) else Fin (x / y))"
| "fdiv (Fin x) b = Fin 0"
| "fdiv a (Fin y) = finf (fsgn a * (if y < 0 then - 1 else 1))"
| "fdiv a b = NaN"

text \<open>\<^verbatim>\<open>float64(n)\<close> for an \<^verbatim>\<open>int64\<close>.\<close>

definition float64_of_int64 :: "int64 \<Rightarrow> float64" where
  "float64_of_int64 n = Fin (real_of_int (sint n))"

text \<open>
  \<^verbatim>\<open>int64(f)\<close>: the fraction is discarded (truncation towards zero). For a value that
  does not fit, and for NaN and the infinities, Go leaves the result to the implementation;
  the value taken here is the one amd64 produces.
\<close>

definition trunc_real :: "real \<Rightarrow> int" where
  "trunc_real r = (if r \<ge> 0 then \<lfloor>r\<rfloor> else \<lceil>r\<rceil>)"

definition int64_indefinite :: int64 where
  "int64_indefinite = word_of_int (- (2 ^ 63))"

fun int64_of_float64 :: "float64 \<Rightarrow> int64" where
  "int64_of_float64 (Fin r) =
     (if - (2 ^ 63) \<le> trunc_real r \<and> trunc_real r < 2 ^ 63
      then word_of_int (trunc_real r) else int64_indefinite)"
| "int64_of_float64 f = int64_indefinite"

text \<open>\<^verbatim>\<open>math.Round\<close>: to the nearest integer, halves away from zero; special values pass.\<close>

fun Round :: "float64 \<Rightarrow> float64" where
  "Round (Fin r) = Fin (of_int (if r \<ge> 0 then \<lfloor>r + 1 / 2\<rfloor> else \<lceil>r - 1 / 2\<rceil>))"
| "Round f = f"

subsection \<open>Strings\<close>

text \<open>\<^verbatim>\<open>strings.HasPrefix\<close> and \<^verbatim>\<open>strings.HasSuffix\<close>, as the library defines them.\<close>

definition HasPrefix :: "string \<Rightarrow> string \<Rightarrow> bool" where
  "HasPrefix s p = (length s \<ge> length p \<and> take (length p) s = p)"

definition HasSuffix :: "string \<Rightarrow> string \<Rightarrow> bool" where
  "HasSuffix s suf = (length s \<ge> length suf \<and> drop (length s - length suf) s = suf)"

subsection \<open>The name classifier\<close>

definition metricSuffixBucket :: string where "metricSuffixBucket = ''_bucket''"
definition metricSuffixSum :: string where "metricSuffixSum = ''_sum''"
definition metricSuffixCount :: string where "metricSuffixCount = ''_count''"
definition metricSuffixTotal :: string where "metricSuffixTotal = ''_total''"

definition stripComplexMetricSuffix :: "string \<Rightarrow> string \<times> string \<times> bool" where
  "stripComplexMetricSuffix name =
     (if HasSuffix name metricSuffixBucket then
        (take (length name - length metricSuffixBucket) name, metricSuffixBucket, True)
      else if HasSuffix name metricSuffixCount then
        (take (length name - length metricSuffixCount) name, metricSuffixCount, True)
      else if HasSuffix name metricSuffixSum then
        (take (length name - length metricSuffixSum) name, metricSuffixSum, True)
      else if HasSuffix name metricSuffixTotal then
        (take (length name - length metricSuffixTotal) name, metricSuffixTotal, True)
      else (name, '''', False))"

subsection \<open>The timestamp utility\<close>

record Timestamp =
  Seconds :: int64
  Nanos :: int32

text \<open>
  Go's \<^verbatim>\<open>/\<close> and \<^verbatim>\<open>%\<close> on \<^verbatim>\<open>int64\<close> truncate towards zero; the product and the
  conversion to \<^verbatim>\<open>int32\<close> wrap around. \<^verbatim>\<open>time.Millisecond\<close> is \<open>1000000\<close>.
\<close>

definition int64_quo :: "int64 \<Rightarrow> int64 \<Rightarrow> int64" where
  "int64_quo a b = word_of_int (sint a sdiv sint b)"

definition int64_rem :: "int64 \<Rightarrow> int64 \<Rightarrow> int64" where
  "int64_rem a b = word_of_int (sint a smod sint b)"

definition time_Millisecond :: int64 where
  "time_Millisecond = 1000000"

definition int32_of_int64 :: "int64 \<Rightarrow> int32" where
  "int32_of_int64 x = ucast x"

definition getTimestamp :: "int64 \<Rightarrow> Timestamp" where
  "getTimestamp t =
     \<lparr> Seconds = int64_quo t 1000,
       Nanos = int32_of_int64 (int64_rem t 1000 * time_Millisecond) \<rparr>"

subsection \<open>Labels and the label comparator\<close>

record Label =
  Name :: string
  Value :: string

type_synonym Labels = "Label list"

text \<open>\<^verbatim>\<open>Labels.Get\<close> of the tsdb library: the value of the first label of that name, or \<open>""\<close>.\<close>

fun Get :: "Labels \<Rightarrow> string \<Rightarrow> string" where
  "Get [] name = ''''"
| "Get (l # ls) name = (if Name l = name then Value l else Get ls name)"

definition skipped :: "Label \<Rightarrow> bool" where
  "skipped l = (Name l = ''le'' \<or> Name l = ''__name__'')"

text \<open>
  The two trailing loops of \<^verbatim>\<open>histogramLabelsEqual\<close>: step over the labels named
  \<open>le\<close> or \<open>__name__\<close> and stop at the first other label.
\<close>

fun drain :: "Labels \<Rightarrow> Labels" where
  "drain [] = []"
| "drain (l # ls) = (if skipped l then drain ls else l # ls)"

text \<open>
  The cursors \<open>i\<close> and \<open>j\<close> are the positions of the two arguments in the original
  label sets: the function is called on \<open>a[i:]\<close> and \<open>b[j:]\<close>. The first two equations are
  the exit of the first loop, followed by the two draining loops and the final test.
\<close>

fun histogramLabelsEqual :: "Labels \<Rightarrow> Labels \<Rightarrow> bool" where
  "histogramLabelsEqual [] b = (drain b = [])"
| "histogramLabelsEqual (x # a) [] = (drain (x # a) = [])"
| "histogramLabelsEqual (x # a) (y # b) =
     (if skipped x then histogramLabelsEqual a (y # b)
      else if skipped y then histogramLabelsEqual (x # a) b
      else if x \<noteq> y then False
      else histogramLabelsEqual a b)"

subsection \<open>Samples, series entries and the emitted protos\<close>

record RefSample =
  Ref :: uint64
  T :: int64
  V :: float64

text \<open>
  \<^verbatim>\<open>textparse.MetricType\<close> is a string type of the Prometheus library; the constants are the
  library's.
\<close>

type_synonym MetricType = string

definition MetricTypeCounter :: MetricType where "MetricTypeCounter = ''counter''"
definition MetricTypeGauge :: MetricType where "MetricTypeGauge = ''gauge''"
definition MetricTypeHistogram :: MetricType where "MetricTypeHistogram = ''histogram''"
definition MetricTypeSummary :: MetricType where "MetricTypeSummary = ''summary''"
definition MetricTypeUnknown :: MetricType where "MetricTypeUnknown = ''unknown''"

datatype ValueType =
  MetricDescriptor_VALUE_TYPE_UNSPECIFIED
| MetricDescriptor_BOOL
| MetricDescriptor_INT64
| MetricDescriptor_DOUBLE
| MetricDescriptor_STRING
| MetricDescriptor_DISTRIBUTION
| MetricDescriptor_MONEY

record Distribution =
  Count :: int64
  Mean :: float64
  SumOfSquaredDeviation :: float64
  Bounds :: "float64 list"
  BucketCounts :: "int64 list"

datatype TypedValue =
  TypedValue_DoubleValue float64
| TypedValue_Int64Value int64
| TypedValue_DistributionValue Distribution

record TimeInterval =
  EndTime :: "Timestamp option"
  StartTime :: "Timestamp option"

record Point =
  Interval :: TimeInterval
  Value_p :: "TypedValue option"

text \<open>
  The time series proto. Of its fields the engine reads and writes \<open>Points\<close> only; the
  metric and resource descriptors ride along unchanged.
\<close>

record TimeSeries =
  Metric_Type :: string
  Metric_Labels :: "(string \<times> string) list"
  Resource_Type :: string
  Resource_Labels :: "(string \<times> string) list"
  Points :: "Point list"

text \<open>
  Modelled from the spec: the series entry and its metadata, which the series cache of the
  repository declares and \<^verbatim>\<open>transform.go\<close> only uses. The fields are the ones
  \<^verbatim>\<open>transform.go\<close> reads: \<open>entry.tracker\<close>, \<open>entry.lset\<close>, \<open>entry.exported\<close>,
  \<open>entry.proto\<close>, \<open>entry.metadata.{Metric, MetricType, ValueType}\<close>, \<open>entry.suffix\<close> and
  \<open>entry.hash\<close>. \<open>proto\<close> and \<open>metadata\<close> are pointers: \<open>None\<close> is nil, and
  dereferencing it panics. A tracker is known by a number.
\<close>

record MetricMetadata =
  Metric :: string
  MetricType :: MetricType
  ValueType :: ValueType

record seriesCacheEntry =
  proto :: "TimeSeries option"
  metadata :: "MetricMetadata option"
  lset :: Labels
  suffix :: string
  hash :: uint64
  exported :: bool
  tracker :: "nat option"

datatype error =
  External string
| Wrap error string
| Errorf_suffix string
| Errorf_type MetricType

text \<open>
  Modelled from the spec: the series directory \<open>b.series\<close> (interface \<^verbatim>\<open>seriesGetter\<close>),
  with the three operations of the spec's section 6, and the tracker's \<^verbatim>\<open>newPoint\<close>.
  They are stateful collaborators, so each takes the state \<open>'d\<close> of the world outside the
  engine and returns the new one. \<open>get\<close> answers an error, a miss (\<open>Inr None\<close>) or an
  entry. \<^verbatim>\<open>strconv.ParseFloat\<close> of the Go library is a parameter as well: \<open>None\<close> is its
  error.
\<close>

record 'd sampleBuilder =
  series_get :: "uint64 \<Rightarrow> 'd \<Rightarrow> (error + seriesCacheEntry option) \<times> 'd"
  series_getResetAdjusted :: "uint64 \<Rightarrow> int64 \<Rightarrow> float64 \<Rightarrow> 'd \<Rightarrow> (int64 \<times> float64 \<times> bool) \<times> 'd"
  series_updateSampleInterval :: "uint64 \<Rightarrow> int64 \<Rightarrow> int64 \<Rightarrow> 'd \<Rightarrow> bool \<times> 'd"
  tracker_newPoint :: "nat \<Rightarrow> Labels \<Rightarrow> int64 \<Rightarrow> float64 \<Rightarrow> 'd \<Rightarrow> 'd"
  strconv_ParseFloat :: "string \<Rightarrow> float64 option"

definition buildTypedValue :: "ValueType \<Rightarrow> float64 \<Rightarrow> TypedValue" where
  "buildTypedValue valueType v =
     (if valueType = MetricDescriptor_INT64
      then TypedValue_Int64Value (int64_of_float64 (Round v))
      else TypedValue_DoubleValue v)"

subsection \<open>The scratch distribution and its sort\<close>

record distribution =
  bounds :: "float64 list"
  "values" :: "int64 list"

definition Len :: "distribution \<Rightarrow> nat" where
  "Len d = length (bounds d)"

text \<open>An index out of range panics: \<open>None\<close>.\<close>

definition Less :: "distribution \<Rightarrow> nat \<Rightarrow> nat \<Rightarrow> bool option" where
  "Less d i j =
     (if i < length (bounds d) \<and> j < length (bounds d)
      then Some (flt (bounds d ! i) (bounds d ! j)) else None)"

definition Swap :: "distribution \<Rightarrow> nat \<Rightarrow> nat \<Rightarrow> distribution option" where
  "Swap d i j =
     (if i < length (bounds d) \<and> j < length (bounds d)
         \<and> i < length (values d) \<and> j < length (values d)
      then Some (d\<lparr> bounds := (bounds d)[i := bounds d ! j, j := bounds d ! i],
                    values := (values d)[i := values d ! j, j := values d ! i] \<rparr>)
      else None)"

text \<open>
  \<^verbatim>\<open>sort.Sort\<close> belongs to the Go library. It reads and changes the data through
  \<open>Len\<close>, \<open>Less\<close> and \<open>Swap\<close> alone. On a short slice (at most 12 elements, 6 in the
  older releases) the library runs the insertion sort below and nothing else; on a longer
  one it runs a quicksort that ends in the same insertion sort.
  \<^verbatim>\<open>for i := a + 1; i < b; i++ { for j := i; j > a && data.Less(j, j-1); j-- { data.Swap(j, j-1) } }\<close>
\<close>

fun sift :: "distribution \<Rightarrow> nat \<Rightarrow> distribution option" where
  "sift d 0 = Some d"
| "sift d (Suc j) =
     (case Less d (Suc j) j of
        None \<Rightarrow> None
      | Some lt \<Rightarrow>
          if lt then (case Swap d (Suc j) j of None \<Rightarrow> None | Some d1 \<Rightarrow> sift d1 j)
          else Some d)"

fun insertionSort :: "distribution \<Rightarrow> nat list \<Rightarrow> distribution option" where
  "insertionSort d [] = Some d"
| "insertionSort d (i # is) =
     (case sift d i of None \<Rightarrow> None | Some d1 \<Rightarrow> insertionSort d1 is)"

definition sort_Sort :: "distribution \<Rightarrow> distribution option" where
  "sort_Sort d = insertionSort d [1..<Len d]"

text \<open>
  Whatever the library's algorithm is on a longer slice, all it can do to the data is a
  sequence of calls of \<open>Swap\<close>.
\<close>

fun swapAll :: "distribution \<Rightarrow> (nat \<times> nat) list \<Rightarrow> distribution option" where
  "swapAll ds [] = Some ds"
| "swapAll ds ((i, j) # ijs) =
     (case Swap ds i j of None \<Rightarrow> None | Some d1 \<Rightarrow> swapAll d1 ijs)"

subsection \<open>buildDistribution: the walk over the sample stream\<close>

text \<open>The variables of the loop; \<open>count\<close>, \<open>sum\<close> and \<open>dist\<close> carry a suffix.\<close>

record loopVars =
  consumed :: nat
  count_v :: float64
  sum_v :: float64
  resetTimestamp :: int64
  lastTimestamp :: int64
  dist_v :: distribution
  skip :: bool

definition initVars :: loopVars where
  "initVars = \<lparr> consumed = 0, count_v = Fin 0, sum_v = Fin 0, resetTimestamp = 0,
                lastTimestamp = 0, dist_v = \<lparr> bounds = [], values = [] \<rparr>, skip = False \<rparr>"

text \<open>
  What one pass through the loop body ends in: the next iteration (\<open>continue\<close>, or the
  end of the body), leaving the loop (\<open>break\<close>, \<open>break Loop\<close>), or the return of an error.
\<close>

datatype 'd step = Continue loopVars 'd | Break loopVars 'd | Fail error 'd

text \<open>The end of the body, lines 266 to 269: \<open>if !ok { skip = true }; consumed++\<close>.\<close>

definition endOfBody :: "loopVars \<Rightarrow> bool \<Rightarrow> 'd \<Rightarrow> 'd step" where
  "endOfBody vars ok d =
     Continue (vars\<lparr> skip := (if \<not> ok then True else skip vars),
                     consumed := consumed vars + 1 \<rparr>) d"

definition loopBody ::
  "'d sampleBuilder \<Rightarrow> string \<Rightarrow> Labels \<Rightarrow> nat \<Rightarrow> RefSample \<Rightarrow> loopVars \<Rightarrow> 'd \<Rightarrow> 'd step" where
  "loopBody b baseName matchLset i s vars d =
     (case series_get b (Ref s) d of
        (Inl err, d1) \<Rightarrow> Fail err d1
      | (Inr None, d1) \<Rightarrow> Continue (vars\<lparr> consumed := consumed vars + 1 \<rparr>) d1
      | (Inr (Some e), d1) \<Rightarrow>
          (let name = Get (lset e) ''__name__'' in
           if \<not> HasPrefix name baseName \<or> \<not> histogramLabelsEqual (lset e) matchLset
           then Break vars d1
           else if i > 0 \<and> T s \<noteq> lastTimestamp vars
           then Break vars d1
           else
             (let vars1 = vars\<lparr> lastTimestamp := T s \<rparr> in
              case series_getResetAdjusted b (Ref s) (T s) (V s) d1 of
                ((rt, v, ok), d2) \<Rightarrow>
                  (let rest = drop (length baseName) name in
                   if rest = metricSuffixSum then
                     endOfBody (vars1\<lparr> sum_v := v \<rparr>) ok d2
                   else if rest = metricSuffixCount then
                     endOfBody (vars1\<lparr> count_v := v, resetTimestamp := rt \<rparr>) ok d2
                   else if rest = metricSuffixBucket then
                     (case strconv_ParseFloat b (Get (lset e) ''le'') of
                        None \<Rightarrow> Continue (vars1\<lparr> consumed := consumed vars1 + 1 \<rparr>) d2
                      | Some upper \<Rightarrow>
                          endOfBody
                            (vars1\<lparr> dist_v :=
                               \<lparr> bounds = bounds (dist_v vars1) @ [upper],
                                 values = values (dist_v vars1) @ [int64_of_float64 v] \<rparr> \<rparr>)
                            ok d2)
                   else Break vars1 d2))))"

text \<open>
  \<open>for i, s := range samples\<close>, from index \<open>i\<close> on. The loop ends in \<open>Continue\<close> when
  the samples are exhausted, in \<open>Break\<close> when the body left it, in \<open>Fail\<close> when the body
  returned an error.
\<close>

fun walk ::
  "'d sampleBuilder \<Rightarrow> string \<Rightarrow> Labels \<Rightarrow> nat \<Rightarrow> RefSample list \<Rightarrow> loopVars \<Rightarrow> 'd \<Rightarrow> 'd step" where
  "walk b baseName matchLset i [] vars d = Continue vars d"
| "walk b baseName matchLset i (s # ss) vars d =
     (case loopBody b baseName matchLset i s vars d of
        Continue vars1 d1 \<Rightarrow> walk b baseName matchLset (i + 1) ss vars1 d1
      | Break vars1 d1 \<Rightarrow> Break vars1 d1
      | Fail err d1 \<Rightarrow> Fail err d1)"

subsection \<open>buildDistribution: lowering the sorted buckets\<close>

text \<open>
  \<open>bounds = dist.bounds[:0]\<close> and \<open>values = dist.values[:0]\<close> share the arrays of the scratch
  distribution, so every \<open>append\<close> of the second loop writes into the array the loop is
  reading. \<open>barr\<close> and \<open>varr\<close> are the two arrays, \<open>nb\<close> and \<open>nv\<close> the lengths of the
  slices \<open>bounds\<close> and \<open>values\<close>. An index beyond \<open>dist.values\<close> panics. An \<open>append\<close>
  stays inside the array as long as the slice is shorter than it, which is the only case
  the step below goes through; the invariant \<open>lowInv\<close> shows that no other case arises.
\<close>

record lowerVars =
  barr :: "float64 list"
  nb :: nat
  varr :: "int64 list"
  nv :: nat
  dev :: float64
  lower :: float64
  prevVal :: int64

definition lowerStep :: "float64 \<Rightarrow> nat \<Rightarrow> lowerVars \<Rightarrow> lowerVars option" where
  "lowerStep mean i st =
     (if i < length (barr st) \<and> i < length (varr st) \<and> nb st < length (barr st)
         \<and> nv st < length (varr st)
      then
        (let upper0 = barr st ! i;
             isinf = IsInf upper0 1;
             upper = (if isinf then lower st else upper0);
             barr1 = (if isinf then barr st else (barr st)[nb st := upper0]);
             nb1 = (if isinf then nb st else nb st + 1);
             val = varr st ! i - prevVal st;
             x = fdiv (fadd (lower st) upper) (Fin 2);
             dev1 = fadd (dev st) (fmul (fmul (float64_of_int64 val) (fsub x mean)) (fsub x mean))
         in Some \<lparr> barr = barr1, nb = nb1, varr = (varr st)[nv st := val], nv = nv st + 1,
                   dev = dev1, lower = upper, prevVal = varr st ! i \<rparr>)
      else None)"

fun lowerLoop :: "float64 \<Rightarrow> nat list \<Rightarrow> lowerVars \<Rightarrow> lowerVars option" where
  "lowerLoop mean [] st = Some st"
| "lowerLoop mean (i # is) st =
     (case lowerStep mean i st of None \<Rightarrow> None | Some st1 \<Rightarrow> lowerLoop mean is st1)"

definition mean_of :: "float64 \<Rightarrow> float64 \<Rightarrow> float64" where
  "mean_of sm cnt = (if fgt cnt (Fin 0) then fdiv sm cnt else Fin 0)"

definition lowerBuckets :: "distribution \<Rightarrow> float64 \<Rightarrow> float64 \<Rightarrow> Distribution option" where
  "lowerBuckets sd sm cnt =
     (let mean = mean_of sm cnt in
      case lowerLoop mean [0..<length (bounds sd)]
             \<lparr> barr = bounds sd, nb = 0, varr = values sd, nv = 0,
               dev = Fin 0, lower = Fin 0, prevVal = 0 \<rparr> of
        None \<Rightarrow> None
      | Some st \<Rightarrow>
          Some \<lparr> Count = int64_of_float64 cnt, Mean = mean, SumOfSquaredDeviation = dev st,
                 Bounds = take (nb st) (barr st), BucketCounts = take (nv st) (varr st) \<rparr>)"

text \<open>\<open>samples[consumed:]\<close> panics when \<open>consumed\<close> exceeds the length.\<close>

definition slice_from :: "nat \<Rightarrow> 'a list \<Rightarrow> 'a list option" where
  "slice_from n xs = (if n \<le> length xs then Some (drop n xs) else None)"

type_synonym distResult = "Distribution option \<times> int64 \<times> RefSample list \<times> error option"

text \<open>Lines 271 to 317: what follows the loop.\<close>

definition afterLoop :: "loopVars \<Rightarrow> RefSample list \<Rightarrow> distResult option" where
  "afterLoop vars samples =
     (case slice_from (consumed vars) samples of
        None \<Rightarrow> None
      | Some rest \<Rightarrow>
          if skip vars \<or> resetTimestamp vars = 0 then Some (None, 0, rest, None)
          else
            (case sort_Sort (dist_v vars) of
               None \<Rightarrow> None
             | Some sd \<Rightarrow>
                 (case lowerBuckets sd (sum_v vars) (count_v vars) of
                    None \<Rightarrow> None
                  | Some dpb \<Rightarrow> Some (Some dpb, resetTimestamp vars, rest, None))))"

definition buildDistribution ::
  "'d sampleBuilder \<Rightarrow> string \<Rightarrow> Labels \<Rightarrow> RefSample list \<Rightarrow> 'd \<Rightarrow> (distResult \<times> 'd) option" where
  "buildDistribution b baseName matchLset samples d =
     (case walk b baseName matchLset 0 samples initVars d of
        Fail err d1 \<Rightarrow> Some ((None, 0, samples, Some err), d1)
      | Continue vars d1 \<Rightarrow> map_option (\<lambda>r. (r, d1)) (afterLoop vars samples)
      | Break vars d1 \<Rightarrow> map_option (\<lambda>r. (r, d1)) (afterLoop vars samples))"

subsection \<open>sampleBuilder.next\<close>

type_synonym nextResult = "TimeSeries option \<times> uint64 \<times> RefSample list \<times> error option"

text \<open>
  The end of \<open>next\<close>, lines 130 to 133. \<open>point\<close> is a pointer that was appended to
  \<open>ts.Points\<close> before the dispatch, so the point as the dispatch left it is the one in the
  time series; \<open>ts\<close> is the copy of the template.
\<close>

definition gate ::
  "'d sampleBuilder \<Rightarrow> seriesCacheEntry \<Rightarrow> TimeSeries \<Rightarrow> Point \<Rightarrow> int64 \<Rightarrow> RefSample
     \<Rightarrow> RefSample list \<Rightarrow> 'd \<Rightarrow> (nextResult \<times> 'd) option" where
  "gate b entry ts point rt sample tailSamples d =
     (case series_updateSampleInterval b (hash entry) rt (T sample) d of
        (False, d1) \<Rightarrow> Some ((None, 0, tailSamples, None), d1)
      | (True, d1) \<Rightarrow>
          Some ((Some (ts\<lparr> Points := Points ts @ [point] \<rparr>), hash entry, tailSamples, None), d1))"

text \<open>The three branches that adjust for counter resets share their first lines.\<close>

definition resetAdjusted ::
  "'d sampleBuilder \<Rightarrow> seriesCacheEntry \<Rightarrow> TimeSeries \<Rightarrow> Point \<Rightarrow> (float64 \<Rightarrow> TypedValue)
     \<Rightarrow> RefSample \<Rightarrow> RefSample list \<Rightarrow> 'd \<Rightarrow> (nextResult \<times> 'd) option" where
  "resetAdjusted b entry ts point mk sample tailSamples d =
     (case series_getResetAdjusted b (Ref sample) (T sample) (V sample) d of
        ((rt, v, ok), d1) \<Rightarrow>
          if \<not> ok then Some ((None, 0, tailSamples, None), d1)
          else gate b entry ts
                 (point\<lparr> Interval := (Interval point)\<lparr> StartTime := Some (getTimestamp rt) \<rparr>,
                          Value_p := Some (mk v) \<rparr>)
                 rt sample tailSamples d1)"

definition dispatch ::
  "'d sampleBuilder \<Rightarrow> seriesCacheEntry \<Rightarrow> MetricMetadata \<Rightarrow> TimeSeries \<Rightarrow> Point
     \<Rightarrow> RefSample \<Rightarrow> RefSample list \<Rightarrow> 'd \<Rightarrow> (nextResult \<times> 'd) option" where
  "dispatch b entry md ts point sample tailSamples d =
     (if MetricType md = MetricTypeCounter then
        resetAdjusted b entry ts point (buildTypedValue (ValueType md)) sample tailSamples d
      else if MetricType md = MetricTypeGauge \<or> MetricType md = MetricTypeUnknown then
        gate b entry ts (point\<lparr> Value_p := Some (buildTypedValue (ValueType md) (V sample)) \<rparr>)
          0 sample tailSamples d
      else if MetricType md = MetricTypeSummary then
        (if suffix entry = metricSuffixSum then
           resetAdjusted b entry ts point TypedValue_DoubleValue sample tailSamples d
         else if suffix entry = metricSuffixCount then
           resetAdjusted b entry ts point (\<lambda>v. TypedValue_Int64Value (int64_of_float64 v))
             sample tailSamples d
         else if suffix entry = [] then
           gate b entry ts (point\<lparr> Value_p := Some (TypedValue_DoubleValue (V sample)) \<rparr>)
             0 sample tailSamples d
         else Some ((None, 0, tailSamples, Some (Errorf_suffix (suffix entry))), d))
      else if MetricType md = MetricTypeHistogram then
        (case buildDistribution b (Metric md) (lset entry) (sample # tailSamples) d of
           None \<Rightarrow> None
         | Some ((v, rt, tailSamples1, err), d1) \<Rightarrow>
             (case v of
                None \<Rightarrow> Some ((None, 0, tailSamples1, err), d1)
              | Some dpb \<Rightarrow>
                  if err \<noteq> None then Some ((None, 0, tailSamples1, err), d1)
                  else gate b entry ts
                         (point\<lparr> Interval := (Interval point)\<lparr> StartTime := Some (getTimestamp rt) \<rparr>,
                                  Value_p := Some (TypedValue_DistributionValue dpb) \<rparr>)
                         rt sample tailSamples1 d1))
      else Some ((None, 0, tailSamples, Some (Errorf_type (MetricType md))), d))"

text \<open>The fresh point of lines 67 to 71: the end time is set, the rest is nil.\<close>

definition new_point :: "RefSample \<Rightarrow> Point" where
  "new_point sample =
     \<lparr> Interval = \<lparr> EndTime = Some (getTimestamp (T sample)), StartTime = None \<rparr>,
       Value_p = None \<rparr>"

definition sampleBuilder_next ::
  "'d sampleBuilder \<Rightarrow> RefSample list \<Rightarrow> 'd \<Rightarrow> (nextResult \<times> 'd) option" where
  "sampleBuilder_next b samples d =
     (case samples of
        [] \<Rightarrow> None
      | sample # tailSamples \<Rightarrow>
          if IsNaN (V sample) then Some ((None, 0, tailSamples, None), d)
          else
            (case series_get b (Ref sample) d of
               (Inl err, d1) \<Rightarrow>
                 Some ((None, 0, samples, Some (Wrap err ''get series information'')), d1)
             | (Inr None, d1) \<Rightarrow> Some ((None, 0, tailSamples, None), d1)
             | (Inr (Some entry), d1) \<Rightarrow>
                 (let d2 = (case tracker entry of
                              None \<Rightarrow> d1
                            | Some tr \<Rightarrow>
                                tracker_newPoint b tr (lset entry) (T sample) (V sample) d1) in
                  if \<not> exported entry then Some ((None, 0, tailSamples, None), d2)
                  else
                    (case proto entry of
                       None \<Rightarrow> None
                     | Some ts \<Rightarrow>
                         (let point = new_point sample in
                          case metadata entry of
                            None \<Rightarrow> None
                          | Some md \<Rightarrow> dispatch b entry md ts point sample tailSamples d2)))))"

subsection \<open>Notions used in the proofs\<close>

text \<open>A label as its (name, value) pair.\<close>

definition pair_of :: "Label \<Rightarrow> string \<times> string" where
  "pair_of l = (Name l, Value l)"

text \<open>The scratch distribution read as a list of (bound, cumulative count) pairs.\<close>

definition pairs :: "distribution \<Rightarrow> (float64 \<times> int64) list" where
  "pairs ds = zip (bounds ds) (values ds)"

text \<open>The two arrays of the scratch distribution have the same length.\<close>

definition parallel :: "distribution \<Rightarrow> bool" where
  "parallel ds = (length (bounds ds) = length (values ds))"


text \<open>The bounds that the second loop emits: all but the \<open>+Inf\<close> ones.\<close>

definition finite_bounds :: "float64 list \<Rightarrow> float64 list" where
  "finite_bounds bs = filter (\<lambda>u. \<not> IsInf u 1) bs"

text \<open>
  The invariant of the second loop before iteration \<open>i\<close>, over the sorted arrays
  \<open>bs\<close> and \<open>vs\<close>: the cells from \<open>i\<close> on are still the sorted ones, the cells below
  hold what was emitted.
\<close>

definition lowInv :: "float64 list \<Rightarrow> int64 list \<Rightarrow> nat \<Rightarrow> lowerVars \<Rightarrow> bool" where
  "lowInv bs vs i st =
     (length (barr st) = length bs \<and> length (varr st) = length vs \<and> nv st = i
      \<and> nb st \<le> i
      \<and> drop i (barr st) = drop i bs \<and> drop i (varr st) = drop i vs
      \<and> prevVal st = (if i = 0 then 0 else vs ! (i - 1))
      \<and> sum_list (take i (varr st)) = prevVal st
      \<and> take (nb st) (barr st) = finite_bounds (take i bs))"

text \<open>The variables the first loop ended with, unless it returned an error.\<close>

definition loopResult :: "'d step \<Rightarrow> loopVars option" where
  "loopResult r =
     (case r of Continue vars d \<Rightarrow> Some vars | Break vars d \<Rightarrow> Some vars | Fail err d \<Rightarrow> None)"








subsection \<open>Test doubles\<close>

text \<open>
  A series directory for evaluating the engine on concrete streams, in the manner of the
  repository's tests: a table from series references to entries (or to a lookup error), the
  list of the references that have a reset anchor (at timestamp \<open>500\<close>), and the answer of
  the interval gate. Its state counts the calls made to the collaborators.
  \<open>testParseFloat\<close> agrees with \<^verbatim>\<open>strconv.ParseFloat\<close> on the four strings it knows and
  on every string that is not a number.
\<close>

definition testParseFloat :: "string \<Rightarrow> float64 option" where
  "testParseFloat s =
     (if s = ''1'' then Some (Fin 1)
      else if s = ''2'' then Some (Fin 2)
      else if s = ''+Inf'' then Some PInf
      else if s = ''NaN'' then Some NaN
      else None)"

definition testLabels :: "(string \<times> string) list \<Rightarrow> Labels" where
  "testLabels kvs = map (\<lambda>(n, v). \<lparr> Name = n, Value = v \<rparr>) kvs"

definition testEntry ::
  "(string \<times> string) list \<Rightarrow> MetricType \<Rightarrow> string \<Rightarrow> string \<Rightarrow> uint64 \<Rightarrow> seriesCacheEntry" where
  "testEntry kvs mt base sfx h =
     \<lparr> proto = Some \<lparr> Metric_Type = base, Metric_Labels = [], Resource_Type = ''global'',
                      Resource_Labels = [], Points = [] \<rparr>,
       metadata = Some \<lparr> Metric = base, MetricType = mt, ValueType = MetricDescriptor_DOUBLE \<rparr>,
       lset = testLabels kvs, suffix = sfx, hash = h, exported = True, tracker = None \<rparr>"

definition testBuilder ::
  "(uint64 \<times> (error + seriesCacheEntry)) list \<Rightarrow> uint64 list \<Rightarrow> bool \<Rightarrow> nat sampleBuilder" where
  "testBuilder tbl anchored accept =
     \<lparr> series_get = (\<lambda>ref d.
         (case map_of tbl ref of
            None \<Rightarrow> Inr None
          | Some (Inl e) \<Rightarrow> Inl e
          | Some (Inr x) \<Rightarrow> Inr (Some x), Suc d)),
       series_getResetAdjusted = (\<lambda>ref t v d. ((500, v, ref \<in> set anchored), Suc d)),
       series_updateSampleInterval = (\<lambda>h rt t d. (accept, Suc d)),
       tracker_newPoint = (\<lambda>tr ls t v d. Suc d),
       strconv_ParseFloat = testParseFloat \<rparr>"

definition testSample :: "uint64 \<Rightarrow> int64 \<Rightarrow> float64 \<Rightarrow> RefSample" where
  "testSample r t v = \<lparr> Ref = r, T = t, V = v \<rparr>"

text \<open>
  The histogram family \<open>foo\<close>: buckets \<open>le="1"\<close>, \<open>"2"\<close>, \<open>"+Inf"\<close>, the sum and the
  count (references 1 to 5), a bucket with the unparseable bound \<open>le="abc"\<close> (6), one with
  \<open>le="NaN"\<close> (7), and a series typed as a histogram whose name is the bare base name (8);
  then a summary series with the suffix \<open>_bucket\<close> (9), a reference whose lookup
  fails (10) and the gauge \<open>up\<close> (11).
\<close>

definition fooFamily :: "(uint64 \<times> (error + seriesCacheEntry)) list" where
  "fooFamily =
     [(1, Inr (testEntry [(''__name__'', ''foo_bucket''), (''le'', ''1'')] MetricTypeHistogram ''foo'' ''_bucket'' 11)),
      (2, Inr (testEntry [(''__name__'', ''foo_bucket''), (''le'', ''2'')] MetricTypeHistogram ''foo'' ''_bucket'' 12)),
      (3, Inr (testEntry [(''__name__'', ''foo_bucket''), (''le'', ''+Inf'')] MetricTypeHistogram ''foo'' ''_bucket'' 13)),
      (4, Inr (testEntry [(''__name__'', ''foo_sum'')] MetricTypeHistogram ''foo'' ''_sum'' 14)),
      (5, Inr (testEntry [(''__name__'', ''foo_count'')] MetricTypeHistogram ''foo'' ''_count'' 15)),
      (6, Inr (testEntry [(''__name__'', ''foo_bucket''), (''le'', ''abc'')] MetricTypeHistogram ''foo'' ''_bucket'' 16)),
      (7, Inr (testEntry [(''__name__'', ''foo_bucket''), (''le'', ''NaN'')] MetricTypeHistogram ''foo'' ''_bucket'' 17)),
      (8, Inr (testEntry [(''__name__'', ''foo'')] MetricTypeHistogram ''foo'' '''' 18)),
      (9, Inr (testEntry [(''__name__'', ''bar_bucket'')] MetricTypeSummary ''bar'' ''_bucket'' 19)),
      (10, Inl (External ''unavailable'')),
      (11, Inr (testEntry [(''__name__'', ''up'')] MetricTypeGauge ''up'' '''' 21))]"

definition fooBuilder :: "nat sampleBuilder" where
  "fooBuilder = testBuilder fooFamily [1, 2, 3, 4, 5, 6, 7, 8] True"

subsection \<open>Name classifier: the claims\<close>

lemma HasSuffix_append: "HasSuffix s suf \<Longrightarrow> take (length s - length suf) s @ suf = s"
  unfolding HasSuffix_def by (metis append_take_drop_id)

text \<open>
  C7. For every metric name, \<^verbatim>\<open>stripComplexMetricSuffix\<close> returns \<open>(prefix, suffix, true)\<close>
  where \<open>suffix\<close> is the first member of the ordered list \<open>_bucket, _count, _sum, _total\<close>
  that the name ends in and \<open>prefix\<close> is the name without it (so prefix followed by suffix
  is the name); when the name ends in none of the four the result is \<open>(name, "", false)\<close>;
  and a name ending in \<open>_count_bucket\<close> is classified with suffix \<open>_bucket\<close>, its prefix
  keeping the \<open>_count\<close>.
\<close>

theorem stripComplexMetricSuffix_first_match:
  "stripComplexMetricSuffix name =
     (case find (HasSuffix name)
             [metricSuffixBucket, metricSuffixCount, metricSuffixSum, metricSuffixTotal] of
        None \<Rightarrow> (name, '''', False)
      | Some s \<Rightarrow> (take (length name - length s) name, s, True))
   \<and> (case stripComplexMetricSuffix name of
        (p, s, ok) \<Rightarrow> p @ s = name)
   \<and> stripComplexMetricSuffix (base @ ''_count_bucket'') = (base @ ''_count'', ''_bucket'', True)"
proof (intro conjI)
  show "stripComplexMetricSuffix name =
     (case find (HasSuffix name)
             [metricSuffixBucket, metricSuffixCount, metricSuffixSum, metricSuffixTotal] of
        None \<Rightarrow> (name, '''', False)
      | Some s \<Rightarrow> (take (length name - length s) name, s, True))"
    by (simp add: stripComplexMetricSuffix_def)
  show "case stripComplexMetricSuffix name of (p, s, ok) \<Rightarrow> p @ s = name"
    by (simp add: stripComplexMetricSuffix_def HasSuffix_append)
  have "HasSuffix (base @ ''_count_bucket'') metricSuffixBucket"
    by (simp add: HasSuffix_def metricSuffixBucket_def)
  then show "stripComplexMetricSuffix (base @ ''_count_bucket'') = (base @ ''_count'', ''_bucket'', True)"
    by (simp add: stripComplexMetricSuffix_def metricSuffixBucket_def)
qed

subsection \<open>The label comparator\<close>

lemma drain_Nil_iff: "(drain b = []) = (filter (\<lambda>l. \<not> skipped l) b = [])"
  by (induction b) auto

lemma pair_of_inj: "(pair_of x = pair_of y) = (x = y)"
  by (cases x, cases y) (auto simp: pair_of_def)

lemma map_pair_of_eq: "(map pair_of xs = map pair_of ys) = (xs = ys)"
  by (simp add: inj_map_eq_map inj_on_def pair_of_inj)

lemma hle_filter: "histogramLabelsEqual a b = (filter (\<lambda>l. \<not> skipped l) a = filter (\<lambda>l. \<not> skipped l) b)"
proof (induction a b rule: histogramLabelsEqual.induct)
  case (1 b)
  then show ?case by (auto simp: drain_Nil_iff)
next
  case (2 x a)
  then show ?case by (auto simp: drain_Nil_iff)
next
  case (3 x a y b)
  then show ?case by auto
qed

text \<open>
  C4. For every pair of label sets \<open>a\<close> and \<open>b\<close> (sorted by label name or not),
  \<^verbatim>\<open>histogramLabelsEqual(a, b)\<close> is true exactly when the two sequences that remain after
  removing every label named \<open>le\<close> or \<open>__name__\<close> are equal as sequences of
  (name, value) pairs: the same length and pairwise equal.
\<close>

theorem histogramLabelsEqual_iff_remaining_equal:
  "histogramLabelsEqual a b =
     (map (\<lambda>l. (Name l, Value l)) (filter (\<lambda>l. Name l \<noteq> ''le'' \<and> Name l \<noteq> ''__name__'') a) =
      map (\<lambda>l. (Name l, Value l)) (filter (\<lambda>l. Name l \<noteq> ''le'' \<and> Name l \<noteq> ''__name__'') b))"
proof -
  have k: "(\<lambda>l. Name l \<noteq> ''le'' \<and> Name l \<noteq> ''__name__'') = (\<lambda>l. \<not> skipped l)"
    by (auto simp: skipped_def)
  have p: "(\<lambda>l. (Name l, Value l)) = pair_of"
    by (auto simp: pair_of_def)
  show ?thesis unfolding k p by (simp add: map_pair_of_eq hle_filter)
qed

subsection \<open>The timestamp utility\<close>








subsection \<open>Sorting the scratch distribution\<close>




lemma Swap_Some:
  assumes "length (bounds d) = length (values d)" "i < length (bounds d)" "j < length (bounds d)"
  shows "\<exists>d1. Swap d i j = Some d1
           \<and> bounds d1 = (bounds d)[i := bounds d ! j, j := bounds d ! i]
           \<and> values d1 = (values d)[i := values d ! j, j := values d ! i]"
  using assms by (simp add: Swap_def)

lemma Swap_pairs:
  assumes "length (bounds d) = length (values d)" "i < length (bounds d)" "j < length (bounds d)"
    and "Swap d i j = Some d1"
  shows "pairs d1 = (pairs d)[i := pairs d ! j, j := pairs d ! i]"
    and "length (bounds d1) = length (bounds d)"
    and "length (values d1) = length (values d)"
  using assms by (auto simp: Swap_def pairs_def zip_update split: if_splits)

lemma length_pairs: "length (bounds d) = length (values d) \<Longrightarrow> length (pairs d) = length (bounds d)"
  by (simp add: pairs_def)

text \<open>
  Any sequence of swaps within the range keeps the multiset of (bound, cumulative count)
  pairs: \<open>Swap\<close> exchanges the same two positions of both arrays.
\<close>

lemma swapAll_pairs:
  "length (bounds ds) = length (values ds) \<Longrightarrow>
   list_all (\<lambda>(i, j). i < Len ds \<and> j < Len ds) ijs \<Longrightarrow>
   \<exists>d1. swapAll ds ijs = Some d1 \<and> mset (pairs d1) = mset (pairs ds)
        \<and> length (bounds d1) = length (bounds ds) \<and> length (values d1) = length (values ds)"
proof (induction ijs arbitrary: ds)
  case Nil
  then show ?case by simp
next
  case (Cons ij ijs)
  obtain i j where ij: "ij = (i, j)" by (cases ij)
  with Cons.prems have r: "i < length (bounds ds)" "j < length (bounds ds)"
    by (simp_all add: Len_def)
  from Swap_Some [OF Cons.prems(1) r] obtain d1 where sw: "Swap ds i j = Some d1" by blast
  from Swap_pairs [OF Cons.prems(1) r sw]
  have p1: "pairs d1 = (pairs ds)[i := pairs ds ! j, j := pairs ds ! i]"
    and l1: "length (bounds d1) = length (bounds ds)" "length (values d1) = length (values ds)"
    by simp_all
  have m1: "mset (pairs d1) = mset (pairs ds)"
    unfolding p1 using r mset_swap [of j "pairs ds" i] Cons.prems(1)
    by (simp add: length_pairs)
  have "list_all (\<lambda>(i, j). i < Len d1 \<and> j < Len d1) ijs"
    using Cons.prems(2) l1 by (simp add: Len_def)
  from Cons.IH [OF _ this] l1 Cons.prems(1) obtain d2 where
    "swapAll d1 ijs = Some d2" "mset (pairs d2) = mset (pairs d1)"
    "length (bounds d2) = length (bounds d1)" "length (values d2) = length (values d1)"
    by auto
  with sw ij m1 l1 show ?case by simp
qed

lemma sift_total:
  "length (bounds d) = length (values d) \<Longrightarrow> j < length (bounds d) \<Longrightarrow>
   \<exists>d1. sift d j = Some d1 \<and> length (bounds d1) = length (bounds d)
        \<and> length (values d1) = length (values d) \<and> mset (pairs d1) = mset (pairs d)"
proof (induction j arbitrary: d)
  case 0
  then show ?case by simp
next
  case (Suc j)
  then have lt: "Less d (Suc j) j = Some (flt (bounds d ! Suc j) (bounds d ! j))"
    by (simp add: Less_def)
  show ?case
  proof (cases "flt (bounds d ! Suc j) (bounds d ! j)")
    case False
    with lt show ?thesis by simp
  next
    case True
    from Suc.prems obtain d1 where sw: "Swap d (Suc j) j = Some d1"
      using Swap_Some [of d "Suc j" j] by auto
    have l1: "length (bounds d1) = length (bounds d)" "length (values d1) = length (values d)"
      and p1: "pairs d1 = (pairs d)[Suc j := pairs d ! j, j := pairs d ! Suc j]"
      using Swap_pairs [OF _ _ _ sw] Suc.prems by auto
    have "mset (pairs d1) = mset (pairs d)"
      unfolding p1 using Suc.prems mset_swap [of j "pairs d" "Suc j"]
      by (simp add: length_pairs)
    moreover from Suc.IH [of d1] l1 Suc.prems
    obtain d2 where "sift d1 j = Some d2" "length (bounds d2) = length (bounds d1)"
      "length (values d2) = length (values d1)" "mset (pairs d2) = mset (pairs d1)"
      by auto
    ultimately show ?thesis using lt True sw l1 by simp
  qed
qed

lemma insertionSort_total:
  "length (bounds d) = length (values d) \<Longrightarrow> \<forall>i \<in> set is. i < length (bounds d) \<Longrightarrow>
   \<exists>d1. insertionSort d is = Some d1 \<and> length (bounds d1) = length (bounds d)
        \<and> length (values d1) = length (values d) \<and> mset (pairs d1) = mset (pairs d)"
proof (induction "is" arbitrary: d)
  case Nil
  then show ?case by simp
next
  case (Cons i "is")
  from sift_total [of d i] Cons.prems obtain d1 where
    s: "sift d i = Some d1" "length (bounds d1) = length (bounds d)"
       "length (values d1) = length (values d)" "mset (pairs d1) = mset (pairs d)"
    by auto
  from Cons.IH [of d1] s Cons.prems obtain d2 where
    "insertionSort d1 is = Some d2" "length (bounds d2) = length (bounds d1)"
       "length (values d2) = length (values d1)" "mset (pairs d2) = mset (pairs d1)"
    by auto
  with s show ?case by simp
qed

lemma sort_Sort_total:
  assumes "length (bounds d) = length (values d)"
  shows "\<exists>sd. sort_Sort d = Some sd \<and> length (bounds sd) = length (bounds d)
        \<and> length (values sd) = length (values d) \<and> mset (pairs sd) = mset (pairs d)"
  unfolding sort_Sort_def Len_def
  by (rule insertionSort_total [OF assms]) simp






lemma values_of_pairs: "length (bounds d) = length (values d) \<Longrightarrow> map snd (pairs d) = values d"
  by (simp add: pairs_def)







subsection \<open>The lowering loop\<close>

lemma nth_of_drop_eq: "drop i xs = drop i ys \<Longrightarrow> i < length xs \<Longrightarrow> i < length ys \<Longrightarrow> xs ! i = ys ! i"
  by (metis Cons_nth_drop_Suc list.inject)

lemma drop_Suc_of_drop_eq: "drop i xs = drop i ys \<Longrightarrow> drop (Suc i) xs = drop (Suc i) ys"
  by (metis drop_Suc tl_drop)

lemma take_Suc_update: "n < length xs \<Longrightarrow> take (Suc n) (xs[n := x]) = take n xs @ [x]"
  by (simp add: take_Suc_conv_app_nth)

lemma lowerStep_inv:
  assumes inv: "lowInv bs vs i st" and i: "i < length bs" and len: "length bs = length vs"
  shows "\<exists>st1. lowerStep mean i st = Some st1 \<and> lowInv bs vs (Suc i) st1"
proof -
  from inv have lb: "length (barr st) = length bs" and lv: "length (varr st) = length vs"
    and nv: "nv st = i" and nb: "nb st \<le> i"
    and db: "drop i (barr st) = drop i bs" and dv: "drop i (varr st) = drop i vs"
    and pv: "prevVal st = (if i = 0 then 0 else vs ! (i - 1))"
    and sm: "sum_list (take i (varr st)) = prevVal st"
    and tb: "take (nb st) (barr st) = finite_bounds (take i bs)"
    by (simp_all add: lowInv_def)
  have bi: "barr st ! i = bs ! i" using nth_of_drop_eq [OF db] i lb by simp
  have vi: "varr st ! i = vs ! i" using nth_of_drop_eq [OF dv] i lv len by simp
  have guard: "i < length (barr st) \<and> i < length (varr st) \<and> nb st < length (barr st)
         \<and> nv st < length (varr st)"
    using i lb lv len nv nb by simp
  define val where "val = vs ! i - prevVal st"
  define st1 where "st1 = the (lowerStep mean i st)"
  have ex: "lowerStep mean i st = Some st1"
    using guard by (simp add: st1_def lowerStep_def Let_def)
  have f_varr: "varr st1 = (varr st)[i := val]"
    and f_nv: "nv st1 = Suc i"
    and f_pv: "prevVal st1 = vs ! i"
    and f_barr: "barr st1 = (if IsInf (bs ! i) 1 then barr st else (barr st)[nb st := bs ! i])"
    and f_nb: "nb st1 = (if IsInf (bs ! i) 1 then nb st else Suc (nb st))"
    using guard by (simp_all add: st1_def lowerStep_def Let_def bi vi nv val_def)
  have t1: "take (Suc i) bs = take i bs @ [bs ! i]"
    using i by (simp add: take_Suc_conv_app_nth)
  have c1: "length (barr st1) = length bs" using f_barr lb by simp
  have c2: "length (varr st1) = length vs" using f_varr lv by simp
  have c3: "nb st1 \<le> Suc i" using f_nb nb by simp
  have c4: "drop (Suc i) (barr st1) = drop (Suc i) bs"
    using f_barr nb drop_Suc_of_drop_eq [OF db] by simp
  have c5: "drop (Suc i) (varr st1) = drop (Suc i) vs"
    using f_varr drop_Suc_of_drop_eq [OF dv] by simp
  have c6: "sum_list (take (Suc i) (varr st1)) = vs ! i"
  proof -
    have "take (Suc i) (varr st1) = take i (varr st) @ [val]"
      unfolding f_varr using i lv len by (simp add: take_Suc_update)
    then show ?thesis using sm by (simp add: val_def)
  qed
  have c7: "take (nb st1) (barr st1) = finite_bounds (take (Suc i) bs)"
  proof (cases "IsInf (bs ! i) 1")
    case True
    then show ?thesis using f_barr f_nb tb t1 by (simp add: finite_bounds_def)
  next
    case False
    have "take (Suc (nb st)) ((barr st)[nb st := bs ! i]) = take (nb st) (barr st) @ [bs ! i]"
      using guard by (simp add: take_Suc_update)
    then show ?thesis using False f_barr f_nb tb t1 by (simp add: finite_bounds_def)
  qed
  have "lowInv bs vs (Suc i) st1"
    unfolding lowInv_def using c1 c2 c3 c4 c5 c6 c7 f_nv f_pv by simp
  with ex show ?thesis by blast
qed

lemma lowerLoop_inv:
  "lowInv bs vs i st \<Longrightarrow> length bs = length vs \<Longrightarrow> n \<le> length bs \<Longrightarrow>
   \<exists>st1. lowerLoop mean [i..<n] st = Some st1 \<and> lowInv bs vs (max i n) st1"
proof (induction "n - i" arbitrary: i st)
  case 0
  then show ?case by (simp add: max_def)
next
  case (Suc m)
  then have i: "i < n" by simp
  then have u: "[i..<n] = i # [Suc i..<n]" by (simp add: upt_conv_Cons)
  from lowerStep_inv [of bs vs i st mean] Suc.prems i obtain st1 where
    s: "lowerStep mean i st = Some st1" "lowInv bs vs (Suc i) st1" by auto
  have m: "m = n - Suc i" using Suc.hyps(2) by simp
  from Suc.hyps(1) [OF m s(2) Suc.prems(2,3)] obtain st2 where
    "lowerLoop mean [Suc i..<n] st1 = Some st2" "lowInv bs vs (max (Suc i) n) st2" by blast
  with s u i show ?case by (simp add: max_def)
qed

lemma lowerBuckets_total:
  assumes len: "length (bounds sd) = length (values sd)"
  shows "\<exists>D. lowerBuckets sd sm cnt = Some D
           \<and> Count D = int64_of_float64 cnt \<and> Mean D = mean_of sm cnt
           \<and> Bounds D = finite_bounds (bounds sd)
           \<and> length (BucketCounts D) = length (bounds sd)
           \<and> sum_list (BucketCounts D) = (if values sd = [] then 0 else last (values sd))"
proof -
  let ?st0 = "\<lparr> barr = bounds sd, nb = 0, varr = values sd, nv = 0,
               dev = Fin 0, lower = Fin 0, prevVal = 0 \<rparr>"
  let ?n = "length (bounds sd)"
  have "lowInv (bounds sd) (values sd) 0 ?st0"
    by (simp add: lowInv_def finite_bounds_def)
  from lowerLoop_inv [OF this len, of ?n "mean_of sm cnt"] obtain st where
    l: "lowerLoop (mean_of sm cnt) [0..<?n] ?st0 = Some st" and inv: "lowInv (bounds sd) (values sd) ?n st"
    by (auto simp: max_def)
  have mx: "max 0 ?n = ?n" by simp
  from inv [unfolded lowInv_def]
  have a1: "length (varr st) = length (values sd)" and a2: "nv st = ?n"
    and a3: "take (nb st) (barr st) = finite_bounds (take ?n (bounds sd))"
    and a4: "sum_list (take ?n (varr st)) = prevVal st"
    and a5: "prevVal st = (if ?n = 0 then 0 else values sd ! (?n - 1))"
    by blast+
  have a6: "(if ?n = 0 then 0 else values sd ! (?n - 1)) = (if values sd = [] then 0 else last (values sd))"
    using len by (auto simp: last_conv_nth)
  have a: "take (nv st) (varr st) = varr st" using a1 a2 len by simp
  have b: "sum_list (varr st) = (if values sd = [] then 0 else last (values sd))"
    using a4 a5 a6 a a2 by simp
  have c: "take (nb st) (barr st) = finite_bounds (bounds sd)" using a3 by simp
  show ?thesis using l a b c a1 len by (simp add: lowerBuckets_def Let_def)
qed

subsection \<open>The walk\<close>

lemma loopBody_Continue:
  assumes "loopBody b baseName matchLset i s vars d = Continue vars1 d1"
  shows "consumed vars1 = consumed vars + 1"
    and "parallel (dist_v vars) \<Longrightarrow> parallel (dist_v vars1)"
  using assms
  by (auto simp: loopBody_def endOfBody_def Let_def parallel_def
      split: prod.splits sum.splits option.splits if_splits)

lemma loopBody_Break:
  assumes "loopBody b baseName matchLset i s vars d = Break vars1 d1"
  shows "consumed vars1 = consumed vars" and "dist_v vars1 = dist_v vars"
  using assms
  by (auto simp: loopBody_def endOfBody_def Let_def
      split: prod.splits sum.splits option.splits if_splits)

lemma walk_consumed:
  "walk b baseName matchLset i ss vars d = r \<Longrightarrow> parallel (dist_v vars) \<Longrightarrow>
   (case r of
      Continue v d1 \<Rightarrow> consumed v = consumed vars + length ss \<and> parallel (dist_v v)
    | Break v d1 \<Rightarrow> consumed v < consumed vars + length ss \<and> parallel (dist_v v)
    | Fail err d1 \<Rightarrow> True)"
proof (induction ss arbitrary: i vars d)
  case Nil
  then show ?case by auto
next
  case (Cons s ss)
  show ?case
  proof (cases "loopBody b baseName matchLset i s vars d")
    case (Continue vars1 d1)
    from loopBody_Continue [OF Continue] Cons.prems
    have c: "consumed vars1 = consumed vars + 1" "parallel (dist_v vars1)" by auto
    from Cons.prems Continue have "walk b baseName matchLset (i + 1) ss vars1 d1 = r" by simp
    from Cons.IH [OF this c(2)] c(1) show ?thesis by (cases r) auto
  next
    case (Break vars1 d1)
    from loopBody_Break [OF Break] Cons.prems Break show ?thesis by auto
  next
    case (Fail err d1)
    with Cons.prems show ?thesis by auto
  qed
qed

lemma walk_from_start:
  assumes "loopResult (walk b baseName matchLset 0 samples initVars d) = Some vars"
  shows "consumed vars \<le> length samples" and "parallel (dist_v vars)"
proof -
  have p: "parallel (dist_v initVars)" by (simp add: parallel_def initVars_def)
  have c: "consumed initVars = 0" by (simp add: initVars_def)
  from walk_consumed [where b = b and baseName = baseName and matchLset = matchLset and i = 0
      and ss = samples and vars = initVars and d = d, OF refl p] assms c
  show "consumed vars \<le> length samples" and "parallel (dist_v vars)"
    by (auto simp: loopResult_def split: step.splits)
qed

subsection \<open>buildDistribution after the walk\<close>

lemma afterLoop_total:
  assumes c: "consumed vars \<le> length samples" and p: "parallel (dist_v vars)"
  shows "\<exists>v rt. afterLoop vars samples = Some (v, rt, drop (consumed vars) samples, None)"
proof -
  from p have len: "length (bounds (dist_v vars)) = length (values (dist_v vars))"
    by (simp add: parallel_def)
  from sort_Sort_total [OF len] obtain sd where
    s0: "sort_Sort (dist_v vars) = Some sd" "length (bounds sd) = length (bounds (dist_v vars))"
      "length (values sd) = length (values (dist_v vars))" by blast
  with len have s: "sort_Sort (dist_v vars) = Some sd" "length (bounds sd) = length (values sd)"
    by simp_all
  from lowerBuckets_total [OF s(2)] obtain D where
    "lowerBuckets sd (sum_v vars) (count_v vars) = Some D" by blast
  with s c show ?thesis by (simp add: afterLoop_def slice_from_def)
qed

lemma afterLoop_emits:
  assumes a: "afterLoop vars samples = Some (Some D, rt, rest, err)"
  shows "\<exists>sd. sort_Sort (dist_v vars) = Some sd
           \<and> lowerBuckets sd (sum_v vars) (count_v vars) = Some D
           \<and> rt = resetTimestamp vars \<and> rest = drop (consumed vars) samples \<and> err = None
           \<and> \<not> skip vars \<and> resetTimestamp vars \<noteq> 0"
  using a
  by (auto simp: afterLoop_def slice_from_def split: option.splits if_splits)


lemma buildDistribution_emits:
  assumes "buildDistribution b baseName matchLset samples d = Some ((Some D, rt, rest, err), d1)"
  shows "\<exists>vars. loopResult (walk b baseName matchLset 0 samples initVars d) = Some vars
           \<and> afterLoop vars samples = Some (Some D, rt, rest, err)"
  using assms
  by (auto simp: buildDistribution_def loopResult_def split: step.splits)


text \<open>buildDistribution never panics: it returns on every stream and in every state.\<close>

lemma buildDistribution_total:
  "\<exists>r d1. buildDistribution b baseName matchLset samples d = Some (r, d1)"
proof (cases "walk b baseName matchLset 0 samples initVars d")
  case (Fail err d1)
  then show ?thesis by (simp add: buildDistribution_def)
next
  case (Continue vars d1)
  then have "loopResult (walk b baseName matchLset 0 samples initVars d) = Some vars"
    by (simp add: loopResult_def)
  from walk_from_start [OF this] afterLoop_total [of vars samples] Continue
  show ?thesis by (auto simp: buildDistribution_def)
next
  case (Break vars d1)
  then have "loopResult (walk b baseName matchLset 0 samples initVars d) = Some vars"
    by (simp add: loopResult_def)
  from walk_from_start [OF this] afterLoop_total [of vars samples] Break
  show ?thesis by (auto simp: buildDistribution_def)
qed



text \<open>The definitions that evaluate the engine on the test doubles.\<close>

lemmas MetricType_defs = MetricTypeCounter_def MetricTypeGauge_def MetricTypeUnknown_def
  MetricTypeSummary_def MetricTypeHistogram_def

lemmas eval_defs = buildDistribution_def afterLoop_def slice_from_def loopBody_def endOfBody_def
  initVars_def fooBuilder_def testBuilder_def fooFamily_def testEntry_def testLabels_def
  testSample_def testParseFloat_def HasPrefix_def skipped_def
  metricSuffixSum_def metricSuffixCount_def metricSuffixBucket_def
  sort_Sort_def Len_def Less_def Swap_def lowerBuckets_def lowerStep_def mean_of_def
  fgt_def IsInf_def IsNaN_def float64_of_int64_def fsub_def finf_def trunc_real_def
  loopResult_def Let_def upt_rec

lemmas next_defs = sampleBuilder_next_def new_point_def dispatch_def gate_def resetAdjusted_def
  buildTypedValue_def MetricType_defs getTimestamp_def int64_quo_def int64_rem_def
  time_Millisecond_def int32_of_int64_def




text \<open>
  C8. In \<open>buildDistribution\<close> the quotient \<open>sum / count\<close> is taken only when
  \<open>count > 0\<close>, and the mean is \<open>0\<close> otherwise, where \<open>count\<close> is the value recorded from
  the \<open>_count\<close> series (the emitted \<open>Count\<close> field is \<open>int64(count)\<close>). So every emitted
  distribution with \<open>count == 0\<close>, the one with all buckets empty included, has the mean
  \<open>0\<close>, which is not NaN, and the \<open>Count\<close> field \<open>0\<close>.
\<close>

theorem buildDistribution_mean:
  assumes bd: "buildDistribution b baseName matchLset samples d = Some ((Some D, rt, rest, err), d1)"
  shows "\<exists>vars. loopResult (walk b baseName matchLset 0 samples initVars d) = Some vars
           \<and> Mean D = (if fgt (count_v vars) (Fin 0) then fdiv (sum_v vars) (count_v vars)
                       else Fin 0)
           \<and> Count D = int64_of_float64 (count_v vars)
           \<and> (count_v vars = Fin 0 \<longrightarrow> Mean D = Fin 0 \<and> \<not> IsNaN (Mean D) \<and> Count D = 0)"
proof -
  from buildDistribution_emits [OF bd] obtain vars where
    w: "loopResult (walk b baseName matchLset 0 samples initVars d) = Some vars"
    and al: "afterLoop vars samples = Some (Some D, rt, rest, err)" by blast
  from walk_from_start [OF w]
  have len: "length (bounds (dist_v vars)) = length (values (dist_v vars))"
    by (simp add: parallel_def)
  from afterLoop_emits [OF al] obtain sd where
    s: "sort_Sort (dist_v vars) = Some sd"
    and lb: "lowerBuckets sd (sum_v vars) (count_v vars) = Some D" by blast
  from sort_Sort_total [OF len] s have lsd: "length (bounds sd) = length (values sd)"
    using len by auto
  from lowerBuckets_total [OF lsd, of "sum_v vars" "count_v vars"] lb have
    cnt: "Count D = int64_of_float64 (count_v vars)"
    and mn: "Mean D = mean_of (sum_v vars) (count_v vars)" by auto
  have z: "int64_of_float64 (Fin 0) = 0" by (simp add: trunc_real_def)
  show ?thesis
    using w cnt mn z by (auto simp: mean_of_def fgt_def IsNaN_def)
qed

text \<open>The witness: every bucket of the family is empty, and so are the sum and the count.\<close>

theorem buildDistribution_mean_witness:
  "buildDistribution fooBuilder ''foo'' (testLabels [(''__name__'', ''foo_bucket''), (''le'', ''1'')])
     [testSample 1 1000 (Fin 0), testSample 3 1000 (Fin 0), testSample 4 1000 (Fin 0),
      testSample 5 1000 (Fin 0)] 0
   = Some ((Some \<lparr> Count = 0, Mean = Fin 0, SumOfSquaredDeviation = Fin 0,
                    Bounds = [Fin 1], BucketCounts = [0, 0] \<rparr>, 500, [], None), 8)
   \<and> \<not> IsNaN (Fin 0)"
proof -
  have h: "buildDistribution fooBuilder ''foo''
       (testLabels [(''__name__'', ''foo_bucket''), (''le'', ''1'')])
       [testSample 1 1000 (Fin 0), testSample 3 1000 (Fin 0), testSample 4 1000 (Fin 0),
        testSample 5 1000 (Fin 0)] 0
     = Some ((Some \<lparr> Count = 0, Mean = Fin 0, SumOfSquaredDeviation = Fin 0,
                      Bounds = [Fin 1], BucketCounts = [0, 0] \<rparr>, 500, [], None), 8)"
    by (simp add: eval_defs)
  from buildDistribution_mean [OF h] h show ?thesis by (simp add: IsNaN_def)
qed

subsection \<open>The timestamp check of the walk\<close>

lemma walk_append:
  "walk b baseName matchLset i (xs @ ys) vars d =
     (case walk b baseName matchLset i xs vars d of
        Continue v d1 \<Rightarrow> walk b baseName matchLset (i + length xs) ys v d1
      | Break v d1 \<Rightarrow> Break v d1
      | Fail err d1 \<Rightarrow> Fail err d1)"
  by (induction xs arbitrary: i vars d) (auto split: step.splits)

lemma loopBody_lastTimestamp:
  assumes "loopBody b baseName matchLset i s vars d = Continue vars1 d1" and "i > 0"
  shows "lastTimestamp vars1 = lastTimestamp vars"
  using assms
  by (auto simp: loopBody_def endOfBody_def Let_def
      split: prod.splits sum.splits option.splits if_splits)

lemma walk_lastTimestamp:
  "walk b baseName matchLset i ss vars d = Continue vars1 d1 \<Longrightarrow> i > 0 \<Longrightarrow>
   lastTimestamp vars1 = lastTimestamp vars"
proof (induction ss arbitrary: i vars d)
  case Nil
  then show ?case by simp
next
  case (Cons s ss)
  then obtain v dd where lb: "loopBody b baseName matchLset i s vars d = Continue v dd"
    and w: "walk b baseName matchLset (i + 1) ss v dd = Continue vars1 d1"
    by (auto split: step.splits)
  from loopBody_lastTimestamp [OF lb Cons.prems(2)] Cons.IH [OF w] show ?case by simp
qed

lemma loopBody_first:
  assumes "loopBody b baseName matchLset 0 s initVars d = Continue vars1 d1"
  shows "lastTimestamp vars1 =
           (case fst (series_get b (Ref s) d) of Inr (Some e) \<Rightarrow> T s | _ \<Rightarrow> 0)"
  using assms
  by (auto simp: loopBody_def endOfBody_def Let_def initVars_def
      split: prod.splits sum.splits option.splits if_splits)

lemma loopBody_timestamp_break:
  assumes "series_get b (Ref s) d = (Inr (Some e), d1)" and "i > 0"
    and "T s \<noteq> lastTimestamp vars"
  shows "loopBody b baseName matchLset i s vars d = Break vars d1"
  using assms by (simp add: loopBody_def Let_def)

text \<open>
  C3, as amended. The walk has passed the samples \<open>s0 # pre\<close> and stands at a later
  position, so \<open>i > 0\<close>. If the lookup of the current sample's series succeeds and the
  sample's timestamp differs from \<open>lastTimestamp\<close>, the walk stops there and the sample is
  left unconsumed: \<open>consumed\<close> is the number of samples before it, and the stream that
  \<open>buildDistribution\<close> returns starts with it. \<open>lastTimestamp\<close> is the timestamp of the
  first sample of the stream when the series of that sample was found, and \<open>0\<close> when it
  was not. (A sample whose lookup misses is consumed whatever its timestamp.)
\<close>

theorem walk_stops_on_other_timestamp:
  assumes pre: "walk b baseName matchLset 0 (s0 # pre) initVars d = Continue vars d1"
    and hit: "series_get b (Ref s) d1 = (Inr (Some e), d2)"
    and ts: "T s \<noteq> lastTimestamp vars"
  shows "walk b baseName matchLset 0 (s0 # pre @ s # post) initVars d = Break vars d2
       \<and> consumed vars = length (s0 # pre)
       \<and> (\<exists>v rt. buildDistribution b baseName matchLset (s0 # pre @ s # post) d
                    = Some ((v, rt, s # post, None), d2))
       \<and> lastTimestamp vars
           = (case fst (series_get b (Ref s0) d) of Inr (Some e0) \<Rightarrow> T s0 | _ \<Rightarrow> 0)"
proof -
  have br: "loopBody b baseName matchLset (length (s0 # pre)) s vars d1 = Break vars d2"
    using loopBody_timestamp_break [OF hit _ ts] by simp
  have "walk b baseName matchLset 0 ((s0 # pre) @ s # post) initVars d = Break vars d2"
    unfolding walk_append using pre br by simp
  then have w: "walk b baseName matchLset 0 (s0 # pre @ s # post) initVars d = Break vars d2"
    by simp
  have p0: "parallel (dist_v initVars)" by (simp add: parallel_def initVars_def)
  from walk_consumed [OF pre p0] have c: "consumed vars = length (s0 # pre)"
    and p: "parallel (dist_v vars)" by (simp_all add: initVars_def)
  from afterLoop_total [of vars "s0 # pre @ s # post", OF _ p] c obtain v rt where
    "afterLoop vars (s0 # pre @ s # post) = Some (v, rt, s # post, None)" by auto
  with w have bd: "buildDistribution b baseName matchLset (s0 # pre @ s # post) d
                    = Some ((v, rt, s # post, None), d2)"
    by (simp add: buildDistribution_def)
  from pre obtain v0 dd where lb: "loopBody b baseName matchLset 0 s0 initVars d = Continue v0 dd"
    and w1: "walk b baseName matchLset 1 pre v0 dd = Continue vars d1"
    by (auto split: step.splits)
  from walk_lastTimestamp [OF w1] loopBody_first [OF lb]
  have lt: "lastTimestamp vars
           = (case fst (series_get b (Ref s0) d) of Inr (Some e0) \<Rightarrow> T s0 | _ \<Rightarrow> 0)"
    by simp
  from w c bd lt show ?thesis by blast
qed

text \<open>
  The witness: after the bucket \<open>le="1"\<close> at \<open>t = 1000\<close>, the count and the sum of the
  family arrive with \<open>t = 2000\<close>; the walk stops at the count and leaves both on the
  stream.
\<close>

theorem walk_stops_on_other_timestamp_witness:
  "walk fooBuilder ''foo'' (testLabels [(''__name__'', ''foo_bucket''), (''le'', ''1'')]) 0
        [testSample 1 1000 (Fin 2)] initVars 0
     = Continue \<lparr> consumed = 1, count_v = Fin 0, sum_v = Fin 0, resetTimestamp = 0,
                  lastTimestamp = 1000, dist_v = \<lparr> bounds = [Fin 1], values = [2] \<rparr>,
                  skip = False \<rparr> 2
   \<and> walk fooBuilder ''foo'' (testLabels [(''__name__'', ''foo_bucket''), (''le'', ''1'')]) 0
        [testSample 1 1000 (Fin 2), testSample 5 2000 (Fin 7), testSample 4 2000 (Fin 9)] initVars 0
     = Break \<lparr> consumed = 1, count_v = Fin 0, sum_v = Fin 0, resetTimestamp = 0,
               lastTimestamp = 1000, dist_v = \<lparr> bounds = [Fin 1], values = [2] \<rparr>,
               skip = False \<rparr> 3
   \<and> buildDistribution fooBuilder ''foo'' (testLabels [(''__name__'', ''foo_bucket''), (''le'', ''1'')])
        [testSample 1 1000 (Fin 2), testSample 5 2000 (Fin 7), testSample 4 2000 (Fin 9)] 0
     = Some ((None, 0, [testSample 5 2000 (Fin 7), testSample 4 2000 (Fin 9)], None), 3)"
proof -
  let ?ml = "testLabels [(''__name__'', ''foo_bucket''), (''le'', ''1'')]"
  let ?vars = "\<lparr> consumed = 1, count_v = Fin 0, sum_v = Fin 0, resetTimestamp = 0,
                  lastTimestamp = 1000, dist_v = \<lparr> bounds = [Fin 1], values = [2] \<rparr>,
                  skip = False \<rparr>"
  have pre: "walk fooBuilder ''foo'' ?ml 0 (testSample 1 1000 (Fin 2) # []) initVars 0
               = Continue ?vars 2"
    by (simp add: eval_defs)
  have hit: "series_get fooBuilder (Ref (testSample 5 2000 (Fin 7))) 2
               = (Inr (Some (testEntry [(''__name__'', ''foo_count'')] MetricTypeHistogram
                               ''foo'' ''_count'' 15)), 3)"
    by (simp add: fooBuilder_def testBuilder_def fooFamily_def testSample_def)
  have ts: "T (testSample 5 2000 (Fin 7)) \<noteq> lastTimestamp ?vars"
    by (simp add: testSample_def)
  from walk_stops_on_other_timestamp
         [OF pre hit ts, where post = "[testSample 4 2000 (Fin 9)]"] pre
  show ?thesis by (simp add: eval_defs)
qed

text \<open>
  C3 as stated fails on a sample whose series is not known: after the bucket \<open>le="1"\<close> at
  \<open>t = 1000\<close>, the sample of the unknown series 99 at \<open>t = 2000\<close> is consumed and the
  walk goes on to the count. All three samples are consumed and the distribution is emitted.
\<close>

theorem walk_consumes_miss_counterexample:
  "buildDistribution fooBuilder ''foo'' (testLabels [(''__name__'', ''foo_bucket''), (''le'', ''1'')])
     [testSample 1 1000 (Fin 2), testSample 99 2000 (Fin 3), testSample 5 1000 (Fin 7)] 0
   = Some ((Some \<lparr> Count = 7, Mean = Fin 0, SumOfSquaredDeviation = Fin (1 / 2),
                    Bounds = [Fin 1], BucketCounts = [2] \<rparr>, 500, [], None), 5)
   \<and> T (testSample 99 2000 (Fin 3)) \<noteq> T (testSample 1 1000 (Fin 2))"
  by (simp add: eval_defs)

subsection \<open>sampleBuilder.next\<close>








text \<open>
  C9. For every input stream whose first sample's value is NaN, \<open>next\<close> returns
  \<open>(nil, 0, stream[1:], nil)\<close> whatever the series directory, the tracker and the state of
  the world are, and leaves that state as it was: no operation of the collaborators is
  invoked.
\<close>

theorem next_NaN_frame:
  "IsNaN (V sample) \<Longrightarrow>
   sampleBuilder_next b (sample # tailSamples) d = Some ((None, 0, tailSamples, None), d)"
  by (simp add: sampleBuilder_next_def)

theorem next_NaN_frame_witness:
  "IsNaN (V (testSample 1 1000 NaN))
   \<and> sampleBuilder_next fooBuilder [testSample 1 1000 NaN, testSample 5 1000 (Fin 7)] 41
       = Some ((None, 0, [testSample 5 1000 (Fin 7)], None), 41)"
  using next_NaN_frame [of "testSample 1 1000 NaN" fooBuilder "[testSample 5 1000 (Fin 7)]" 41]
  by (simp add: IsNaN_def testSample_def)







text \<open>
  C1 does not hold of the code. The series 8 is typed as a histogram and is named like the
  base metric, without a suffix. The walk of \<open>buildDistribution\<close> leaves the loop at that
  very sample (\<open>break Loop\<close>) with nothing consumed, no reset timestamp was set, and \<open>next\<close>
  returns the whole input stream with a nil error: the stream is not shorter, and calling
  \<open>next\<close> again on the remainder repeats the same call.
\<close>

theorem next_returns_whole_stream_on_bare_histogram_name:
  "sampleBuilder_next fooBuilder [testSample 8 1000 (Fin 1)] 0
     = Some ((None, 0, [testSample 8 1000 (Fin 1)], None), 3)"
  by (simp add: next_defs eval_defs)

end
